theory Spec2Isabelle
  imports Main "HOL-Library.Sublist" "HOL-Library.Monad_Syntax"
begin

section \<open>Text and lines\<close>

text \<open>
  A Python \<open>str\<close> is modelled as a \<open>string\<close>: one \<open>char\<close> per code point, for the
  code points below 256. The line separator is the character \<open>CHR 0x0A\<close>.
\<close>

definition nl :: char where
  "nl = CHR 0x0A"

text \<open>
  \<open>content.split('\n')\<close>: the pieces between the separators. The result is never empty
  (the empty content gives one empty line), and a trailing separator gives a last empty
  line. In the second equation \<open>rest\<close> is therefore not empty, and a character that is
  not the separator goes in front of its first piece.
\<close>

fun split_nl :: "string \<Rightarrow> string list" where
  "split_nl [] = [[]]"
| "split_nl (c # cs) =
     (let rest = split_nl cs
      in if c = nl then [] # rest else (c # hd rest) # tl rest)"

text \<open>\<open>'\n'.join(result)\<close>: the lines with one separator between neighbours.\<close>

fun join_nl :: "string list \<Rightarrow> string" where
  "join_nl [] = []"
| "join_nl [l] = l"
| "join_nl (l # l' # ls) = l @ nl # join_nl (l' # ls)"

section \<open>The regular expressions\<close>

text \<open>
  The class \<open>\s\<close> of Python's \<open>re\<close> on \<open>str\<close> patterns, for the code points below 256:
  tab, line feed, vertical tab, form feed, carriage return, the four separators
  0x1C to 0x1F, space, next line (0x85) and no-break space (0xA0).
\<close>

definition whitespace :: string where
  "whitespace = [CHR 0x09, CHR 0x0A, CHR 0x0B, CHR 0x0C, CHR 0x0D,
                 CHR 0x1C, CHR 0x1D, CHR 0x1E, CHR 0x1F, CHR 0x20, CHR 0x85, CHR 0xA0]"

definition is_space :: "char \<Rightarrow> bool" where
  "is_space c = (c \<in> set whitespace)"

text \<open>
  A pattern is matched from the left; each piece takes the text still to be matched and
  returns what is left after it, or \<open>None\<close> when it does not match. \<open>re.match\<close> anchors the
  pattern at the start of the line and accepts any text after the match.

  \<open>lit p\<close> is the literal text \<open>p\<close>. \<open>spaces0\<close> is \<open>\s*\<close> and \<open>spaces1\<close> is \<open>\s+\<close>, both
  taking the longest run of whitespace: in every pattern below they are followed by a
  literal that starts with a character outside \<open>\s\<close>, or by \<open>$\<close>, so a shorter run never
  matches where the longest one fails. \<open>at_end\<close> is \<open>$\<close> without the MULTILINE flag: the
  end of the text, or the position before a final line feed.
\<close>

definition lit :: "string \<Rightarrow> string \<Rightarrow> string option" where
  "lit p s = (if take (length p) s = p then Some (drop (length p) s) else None)"

definition spaces0 :: "string \<Rightarrow> string option" where
  "spaces0 s = Some (dropWhile is_space s)"

definition spaces1 :: "string \<Rightarrow> string option" where
  "spaces1 s = (if takeWhile is_space s = [] then None else Some (dropWhile is_space s))"

definition at_end :: "string \<Rightarrow> string option" where
  "at_end s = (if s = [] \<or> s = [nl] then Some s else None)"

text \<open>\<open>re.match(r'^\s*#if\s+os\(macOS\)', line)\<close>\<close>

definition re_if_macos :: "string \<Rightarrow> bool" where
  "re_if_macos line =
     (spaces0 line \<bind> lit ''#if'' \<bind> spaces1 \<bind> lit ''os(macOS)'' \<noteq> None)"

text \<open>\<open>re.match(r'^\s*#if\s+os\(iOS\)', line)\<close>\<close>

definition re_if_ios :: "string \<Rightarrow> bool" where
  "re_if_ios line =
     (spaces0 line \<bind> lit ''#if'' \<bind> spaces1 \<bind> lit ''os(iOS)'' \<noteq> None)"

text \<open>\<open>re.match(r'^\s*#if\s+!os\(macOS\)', line)\<close>, of the first version only\<close>

definition re_if_not_macos :: "string \<Rightarrow> bool" where
  "re_if_not_macos line =
     (spaces0 line \<bind> lit ''#if'' \<bind> spaces1 \<bind> lit ''!os(macOS)'' \<noteq> None)"

text \<open>\<open>re.match(r'^\s*#if', line)\<close>\<close>

definition re_if :: "string \<Rightarrow> bool" where
  "re_if line = (spaces0 line \<bind> lit ''#if'' \<noteq> None)"

text \<open>\<open>re.match(r'^\s*#elseif\s+os\(macOS\)', line)\<close>\<close>

definition re_elseif_macos :: "string \<Rightarrow> bool" where
  "re_elseif_macos line =
     (spaces0 line \<bind> lit ''#elseif'' \<bind> spaces1 \<bind> lit ''os(macOS)'' \<noteq> None)"

text \<open>\<open>re.match(r'^\s*#else\s*$', line)\<close>\<close>

definition re_else :: "string \<Rightarrow> bool" where
  "re_else line = (spaces0 line \<bind> lit ''#else'' \<bind> spaces0 \<bind> at_end \<noteq> None)"

text \<open>\<open>re.match(r'^\s*#endif', line)\<close>, of the refined version\<close>

definition re_endif :: "string \<Rightarrow> bool" where
  "re_endif line = (spaces0 line \<bind> lit ''#endif'' \<noteq> None)"

text \<open>\<open>re.match(r'^\s*#endif\s*$', line)\<close>, of the first version\<close>

definition re_endif_eol :: "string \<Rightarrow> bool" where
  "re_endif_eol line = (spaces0 line \<bind> lit ''#endif'' \<bind> spaces0 \<bind> at_end \<noteq> None)"

section \<open>The refined filter: \<open>remove_macos_blocks\<close>\<close>

text \<open>
  The local variables of \<open>remove_macos_blocks\<close> that the loop changes. \<open>stack\<close> is a Python
  list used as a stack: \<open>append\<close> adds at the end, \<open>stack[-1]\<close> reads the last element and
  \<open>pop()\<close> removes it. \<open>skip_until_endif\<close> is a Python integer.
\<close>

record filter_state =
  result :: "string list"
  stack :: "string list"
  skip_until_endif :: int

text \<open>
  \<open>stack and stack[-1] == 'ios'\<close>: the emptiness test comes first, so \<open>stack[-1]\<close> is
  only read on a non-empty list and never raises.
\<close>

definition top_is_ios :: "string list \<Rightarrow> bool" where
  "top_is_ios st = (if st = [] then False else last st = ''ios'')"

text \<open>
  One iteration of the \<open>while\<close> loop on the line \<open>lines[i]\<close>. Every branch of the source
  ends with \<open>i += 1\<close>, so the loop visits the lines once each, from first to last.
\<close>

definition blocks_step :: "filter_state \<Rightarrow> string \<Rightarrow> filter_state" where
  "blocks_step s line =
     (if re_if_macos line then s\<lparr>skip_until_endif := skip_until_endif s + 1\<rparr>
      else if skip_until_endif s > 0 then
        (if re_if line then s\<lparr>skip_until_endif := skip_until_endif s + 1\<rparr>
         else if re_endif line then s\<lparr>skip_until_endif := skip_until_endif s - 1\<rparr>
         else s)
      else if re_if_ios line then s\<lparr>stack := stack s @ [''ios'']\<rparr>
      else if re_elseif_macos line then
        (if top_is_ios (stack s) then s\<lparr>skip_until_endif := 1\<rparr> else s)
      else if re_else line then
        (if top_is_ios (stack s) then s\<lparr>skip_until_endif := 1\<rparr> else s)
      else if re_endif line then
        (if top_is_ios (stack s) then s\<lparr>stack := butlast (stack s)\<rparr> else s)
      else s\<lparr>result := result s @ [line]\<rparr>)"

fun blocks_loop :: "string list \<Rightarrow> filter_state \<Rightarrow> filter_state" where
  "blocks_loop [] s = s"
| "blocks_loop (line # lines) s = blocks_loop lines (blocks_step s line)"

definition blocks_init :: filter_state where
  "blocks_init = \<lparr>result = [], stack = [], skip_until_endif = 0\<rparr>"

text \<open>The list \<open>result\<close> when the loop has ended: the lines that are kept.\<close>

definition kept_lines :: "string list \<Rightarrow> string list" where
  "kept_lines lines = result (blocks_loop lines blocks_init)"

definition remove_macos_blocks :: "string \<Rightarrow> string" where
  "remove_macos_blocks content = join_nl (kept_lines (split_nl content))"

section \<open>The first version: \<open>remove_macos_conditionals\<close>\<close>

text \<open>
  The local variables of \<open>remove_macos_conditionals\<close>; its list \<open>result\<close> is the field
  \<open>result1\<close> here.
\<close>

record cond_state =
  result1 :: "string list"
  skip_depth :: int
  in_ios_block :: bool
  ios_depth :: int

text \<open>
  One iteration of its loop. In the source the tests for \<open>#else\<close> and \<open>#endif\<close> have inner
  branches that end the iteration and otherwise fall through to the tests below them;
  here each inner branch is a branch of the chain, in the same order.
\<close>

definition conditionals_step :: "cond_state \<Rightarrow> string \<Rightarrow> cond_state" where
  "conditionals_step s line =
     (if re_if_macos line then s\<lparr>skip_depth := skip_depth s + 1\<rparr>
      else if re_if_ios line then s\<lparr>in_ios_block := True, ios_depth := ios_depth s + 1\<rparr>
      else if re_if_not_macos line then s
      else if re_else line \<and> skip_depth s > 0 then s
      else if re_else line \<and> in_ios_block s then s\<lparr>skip_depth := skip_depth s + 1\<rparr>
      else if re_endif_eol line \<and> skip_depth s > 0 then s\<lparr>skip_depth := skip_depth s - 1\<rparr>
      else if re_endif_eol line \<and> in_ios_block s \<and> ios_depth s > 0 then
        s\<lparr>ios_depth := ios_depth s - 1,
          in_ios_block := (if ios_depth s - 1 = 0 then False else in_ios_block s)\<rparr>
      else if skip_depth s = 0 then s\<lparr>result1 := result1 s @ [line]\<rparr>
      else s)"

fun conditionals_loop :: "string list \<Rightarrow> cond_state \<Rightarrow> cond_state" where
  "conditionals_loop [] s = s"
| "conditionals_loop (line # lines) s = conditionals_loop lines (conditionals_step s line)"

definition conditionals_init :: cond_state where
  "conditionals_init = \<lparr>result1 = [], skip_depth = 0, in_ios_block = False, ios_depth = 0\<rparr>"

definition remove_macos_conditionals :: "string \<Rightarrow> string" where
  "remove_macos_conditionals content =
     join_nl (result1 (conditionals_loop (split_nl content) conditionals_init))"

section \<open>The import post-pass of \<open>process_file\<close>\<close>

text \<open>
  \<open>\s*\n\<close> at the end of the import pattern: the line feed is itself in \<open>\s\<close>, so the
  greedy \<open>\s*\<close> first takes the whole run of whitespace and then gives characters back
  until a line feed follows. The match therefore ends after the last line feed of the run,
  and fails when the run holds none.
\<close>

definition spaces_nl :: "string \<Rightarrow> string option" where
  "spaces_nl s =
     (let run = takeWhile is_space s in
      if nl \<in> set run
      then Some (rev (takeWhile (\<lambda>c. c \<noteq> nl) (rev run)) @ dropWhile is_space s)
      else None)"

text \<open>The pattern \<open>import\s+AppKit\s*\n\<close> at the start of the text \<open>s\<close>.\<close>

definition re_import :: "string \<Rightarrow> string option" where
  "re_import s = lit ''import'' s \<bind> spaces1 \<bind> lit ''AppKit'' \<bind> spaces_nl"

text \<open>
  \<open>re.sub(r'import\s+AppKit\s*\n', '', new_content)\<close>: the text is scanned from the left;
  where the pattern matches, the match is deleted and the scan goes on after it, and where
  it does not, the character is kept and the scan moves one character on. The pattern
  never matches the empty text.
\<close>

function re_sub_import :: "string \<Rightarrow> string" where
  "re_sub_import [] = []"
| "re_sub_import (c # cs) =
     (case re_import (c # cs) of
        Some r \<Rightarrow> re_sub_import r
      | None \<Rightarrow> c # re_sub_import cs)"
  by pat_completeness auto
termination
proof (relation "measure length")
  show "wf (measure length)" by simp
next
  fix c :: char and cs r :: string
  assume "re_import (c # cs) = Some r"
  then obtain r1 r2 r3 where
    1: "lit ''import'' (c # cs) = Some r1" and 2: "spaces1 r1 = Some r2" and
    3: "lit ''AppKit'' r2 = Some r3" and 4: "spaces_nl r3 = Some r"
    by (auto simp: re_import_def bind_eq_Some_conv)
  have "length r1 < length (c # cs)"
    using 1 by (auto simp: lit_def split: if_splits)
  moreover have "length r2 \<le> length r1"
    using 2 by (auto simp: spaces1_def length_dropWhile_le split: if_splits)
  moreover have "length r3 \<le> length r2"
    using 3 by (auto simp: lit_def split: if_splits)
  moreover have "length r \<le> length r3"
  proof -
    let ?run = "takeWhile is_space r3"
    from 4 have r: "r = rev (takeWhile (\<lambda>c. c \<noteq> nl) (rev ?run)) @ dropWhile is_space r3"
      by (auto simp: spaces_nl_def Let_def split: if_splits)
    have "length (takeWhile (\<lambda>c. c \<noteq> nl) (rev ?run)) \<le> length (rev ?run)"
      by (rule length_takeWhile_le)
    moreover have "length ?run + length (dropWhile is_space r3) = length r3"
      by (metis length_append takeWhile_dropWhile_id)
    ultimately show ?thesis using r by simp
  qed
  ultimately show "(r, c # cs) \<in> measure length" by simp
next
  fix c :: char and cs :: string
  show "(cs, c # cs) \<in> measure length" by simp
qed

text \<open>
  Lines 78 to 81 of \<open>process_file\<close>: the line filter followed by the post-pass, on the
  content read from the file. (\<open>process_file\<close> reaches these lines only for a content
  that holds the text \<open>os(macOS)\<close>, and leaves any other file as it is.)
\<close>

definition filter_and_post :: "string \<Rightarrow> string" where
  "filter_and_post content = re_sub_import (remove_macos_blocks content)"

section \<open>Notions used to state the properties\<close>

text \<open>
  The five patterns that the loop of \<open>remove_macos_blocks\<close> tests a line against before
  it keeps the line.
\<close>

definition recognised :: "string \<Rightarrow> bool" where
  "recognised line =
     (re_if_macos line \<or> re_if_ios line \<or> re_elseif_macos line \<or> re_else line \<or>
      re_endif line)"

text \<open>
  A region of lines that holds only complete, properly nested pairs of an opening line
  (pattern \<open>^\s*#if\<close>) and a closing line (pattern \<open>^\s*#endif\<close>), read with \<open>d\<close> pairs
  already open: every closing line closes an open pair, and none is open at the end.
\<close>

fun balanced_from :: "nat \<Rightarrow> string list \<Rightarrow> bool" where
  "balanced_from d [] = (d = 0)"
| "balanced_from d (line # lines) =
     (if re_if line then balanced_from (Suc d) lines
      else if re_endif line then (case d of 0 \<Rightarrow> False | Suc d' \<Rightarrow> balanced_from d' lines)
      else balanced_from d lines)"


section \<open>Evaluation on given texts\<close>

lemmas re_defs = re_if_macos_def re_if_ios_def re_if_not_macos_def re_if_def re_elseif_macos_def
  re_else_def re_endif_def re_endif_eol_def spaces0_def spaces1_def lit_def at_end_def
  is_space_def whitespace_def nl_def

lemmas blocks_eval = remove_macos_blocks_def kept_lines_def blocks_init_def blocks_step_def
  top_is_ios_def Let_def re_defs

lemmas conditionals_eval = remove_macos_conditionals_def conditionals_init_def
  conditionals_step_def Let_def re_defs

lemmas post_eval = filter_and_post_def re_import_def spaces_nl_def

section \<open>Splitting and joining\<close>








section \<open>Literals and the patterns\<close>

lemma lit_Cons_Nil: "lit (p # ps) [] = None"
  by (simp add: lit_def)

lemma lit_Cons_Cons: "lit (p # ps) (c # cs) = (if p = c then lit ps cs else None)"
  by (auto simp: lit_def)

lemma lit_if_shape: "lit ''#if'' r = Some y \<Longrightarrow> \<exists>t. r = CHR ''#'' # CHR ''i'' # t"
  by (cases r; cases "tl r") (auto simp: lit_Cons_Cons lit_Cons_Nil split: if_splits)

text \<open>A line that matches one of the two \<open>#if os(...)\<close> patterns matches \<open>^\s*#if\<close>.\<close>

lemma re_if_macos_is_if: "re_if_macos l \<Longrightarrow> re_if l"
  by (auto simp: re_if_macos_def re_if_def spaces0_def bind_eq_Some_conv)

lemma re_if_ios_is_if: "re_if_ios l \<Longrightarrow> re_if l"
  by (auto simp: re_if_ios_def re_if_def spaces0_def bind_eq_Some_conv)

text \<open>A line that matches \<open>^\s*#if\<close> matches none of the patterns that start with \<open>#e\<close>.\<close>

lemma re_if_not_branch: "re_if l \<Longrightarrow> \<not> re_elseif_macos l \<and> \<not> re_else l \<and> \<not> re_endif l"
  by (auto simp: re_if_def re_elseif_macos_def re_else_def re_endif_def spaces0_def
      lit_Cons_Cons dest!: lit_if_shape)


section \<open>The loop of the refined filter\<close>

lemma blocks_loop_append: "blocks_loop (xs @ ys) s = blocks_loop ys (blocks_loop xs s)"
  by (induction xs arbitrary: s) auto

text \<open>An iteration leaves \<open>result\<close> alone or appends the line, which then matched no pattern.\<close>

lemma blocks_step_result:
  "result (blocks_step s l) = result s \<or>
   (result (blocks_step s l) = result s @ [l] \<and> \<not> recognised l)"
  by (simp add: blocks_step_def recognised_def)

lemma blocks_loop_result:
  "\<exists>ks. result (blocks_loop ls s) = result s @ ks \<and> subseq ks ls \<and>
     (\<forall>k\<in>set ks. \<not> recognised k)"
proof (induction ls arbitrary: s)
  case Nil
  show ?case by simp
next
  case (Cons l ls)
  from Cons [of "blocks_step s l"] obtain ks where
    ks: "result (blocks_loop ls (blocks_step s l)) = result (blocks_step s l) @ ks"
        "subseq ks ls" "\<forall>k\<in>set ks. \<not> recognised k"
    by blast
  from blocks_step_result [of s l] show ?case
  proof
    assume "result (blocks_step s l) = result s"
    with ks have "result (blocks_loop (l # ls) s) = result s @ ks \<and> subseq ks (l # ls) \<and>
        (\<forall>k\<in>set ks. \<not> recognised k)"
      by (simp add: list_emb_Cons)
    then show ?thesis by blast
  next
    assume "result (blocks_step s l) = result s @ [l] \<and> \<not> recognised l"
    with ks have "result (blocks_loop (l # ls) s) = result s @ (l # ks) \<and>
        subseq (l # ks) (l # ls) \<and> (\<forall>k\<in>set (l # ks). \<not> recognised k)"
      by simp
    then show ?thesis by blast
  qed
qed

lemma kept_lines_subseq: "subseq (kept_lines ls) ls"
  using blocks_loop_result [of ls blocks_init] by (auto simp: kept_lines_def blocks_init_def)







subsection \<open>Inside a skipped region\<close>

text \<open>
  While the counter is positive, the lines of a region of nested pairs only move the
  counter: it stays above the value it had before the region was entered, and the rest of
  the state is untouched.
\<close>

lemma skip_region:
  "balanced_from d (p @ q) \<Longrightarrow> skip_until_endif s = 1 + int n + int d \<Longrightarrow>
   \<exists>d'. balanced_from d' q \<and> blocks_loop p s = s\<lparr>skip_until_endif := 1 + int n + int d'\<rparr>"
proof (induction p arbitrary: d s)
  case Nil
  then show ?case by auto
next
  case (Cons l p)
  let ?s = "blocks_step s l"
  have pos: "skip_until_endif s > 0" using Cons.prems(2) by simp
  consider (is_open) "re_if l" | (is_close) "\<not> re_if l" "re_endif l"
    | (neither) "\<not> re_if l" "\<not> re_endif l"
    by blast
  then show ?case
  proof cases
    case is_open
    then have st: "?s = s\<lparr>skip_until_endif := 1 + int n + int (Suc d)\<rparr>"
      using pos Cons.prems(2) by (simp add: blocks_step_def)
    have "balanced_from (Suc d) (p @ q)" using Cons.prems(1) is_open by simp
    from Cons.IH [OF this, of ?s] st show ?thesis by auto
  next
    case is_close
    then obtain d0 where d: "d = Suc d0" and b: "balanced_from d0 (p @ q)"
      using Cons.prems(1) by (cases d) auto
    have "\<not> re_if_macos l" using is_close(1) re_if_macos_is_if by blast
    then have st: "?s = s\<lparr>skip_until_endif := 1 + int n + int d0\<rparr>"
      using pos is_close d Cons.prems(2) by (simp add: blocks_step_def)
    from Cons.IH [OF b, of ?s] st show ?thesis by auto
  next
    case neither
    have "\<not> re_if_macos l" using neither(1) re_if_macos_is_if by blast
    then have st: "?s = s" using pos neither by (simp add: blocks_step_def)
    have "balanced_from d (p @ q)" using Cons.prems(1) neither by simp
    from Cons.IH [OF this, of ?s] st Cons.prems(2) show ?thesis by auto
  qed
qed

lemma macos_block_inside:
  assumes "re_if_macos m" "balanced_from 0 (p @ q)" "0 \<le> skip_until_endif s"
  shows "\<exists>d. balanced_from d q \<and>
    blocks_loop (m # p) s = s\<lparr>skip_until_endif := skip_until_endif s + 1 + int d\<rparr>"
proof -
  let ?s = "blocks_step s m"
  have st: "?s = s\<lparr>skip_until_endif := skip_until_endif s + 1\<rparr>"
    using assms(1) by (simp add: blocks_step_def)
  then have "skip_until_endif ?s = 1 + int (nat (skip_until_endif s)) + int 0"
    using assms(3) by simp
  from skip_region [OF assms(2) this] obtain d where
    "balanced_from d q"
    "blocks_loop p ?s = ?s\<lparr>skip_until_endif := 1 + int (nat (skip_until_endif s)) + int d\<rparr>"
    by blast
  then show ?thesis using st assms(3) by auto
qed

lemma macos_block_whole:
  assumes "re_if_macos m" "balanced_from 0 body" "re_endif e" "0 \<le> skip_until_endif s"
  shows "blocks_loop (m # body @ [e]) s = s"
proof -
  from macos_block_inside [of m body "[]" s] assms obtain d where
    "balanced_from d []" and
    b: "blocks_loop (m # body) s = s\<lparr>skip_until_endif := skip_until_endif s + 1 + int d\<rparr>"
    by auto
  then have b': "blocks_loop (m # body) s = s\<lparr>skip_until_endif := skip_until_endif s + 1\<rparr>"
    by simp
  have ne: "\<not> re_if e" using assms(3) re_if_not_branch by blast
  then have "\<not> re_if_macos e" using re_if_macos_is_if by blast
  then have "blocks_step (s\<lparr>skip_until_endif := skip_until_endif s + 1\<rparr>) e = s"
    using ne assms(3,4) by (simp add: blocks_step_def)
  moreover have "blocks_loop (m # body @ [e]) s = blocks_loop [e] (blocks_loop (m # body) s)"
    using blocks_loop_append [of "m # body" "[e]" s] by simp
  ultimately show ?thesis using b' by simp
qed

section \<open>The scan of the post-pass and the texts left unchanged\<close>













section \<open>The scenarios and properties of the filter\<close>

subsection \<open>A block guarded by another platform\<close>

text \<open>
  Claim C1 says that the six lines \<open>#if os(watchOS)\<close>, \<open>D\<close>, \<open>#else\<close>, \<open>E\<close>, \<open>#endif\<close>,
  \<open>B\<close> give exactly the three lines \<open>D\<close>, \<open>E\<close>, \<open>B\<close>. The filter does not give
  that output.
\<close>

theorem other_platform_scenario_counterexample:
  "remove_macos_blocks ''#if os(watchOS)\<newline>D\<newline>#else\<newline>E\<newline>#endif\<newline>B''
     \<noteq> ''D\<newline>E\<newline>B''"
  by (simp add: blocks_eval)

text \<open>
  Claim C1, as the filter behaves: the only guard of another platform that the loop
  tests for is \<open>#if os(iOS)\<close>, so the line \<open>#if os(watchOS)\<close> matches none of its patterns
  and is kept as content. The lines \<open>#else\<close> and \<open>#endif\<close> are dropped and both bodies are
  kept: the output is the four lines \<open>#if os(watchOS)\<close>, \<open>D\<close>, \<open>E\<close>, \<open>B\<close>.
\<close>

theorem other_platform_scenario:
  "remove_macos_blocks ''#if os(watchOS)\<newline>D\<newline>#else\<newline>E\<newline>#endif\<newline>B''
     = ''#if os(watchOS)\<newline>D\<newline>E\<newline>B''"
  by (simp add: blocks_eval)

subsection \<open>The state at the end of the input\<close>

text \<open>
  Claim C2 says that on well-formed input the loop ends with the counter at 0 and the
  stack empty, and names the lines \<open>#if os(iOS)\<close>, \<open>A\<close>, \<open>#else\<close>, \<open>C\<close>, \<open>#endif\<close>. On
  these lines, and on the same lines with \<open>#elseif os(macOS)\<close> for \<open>#else\<close>, the loop ends
  with the counter at 0 and the marker \<open>ios\<close> still on the stack: the \<open>#endif\<close> that ends
  the skipped branch lowers the counter and does not reach the \<open>pop\<close>. The marker that
  is left changes what the filter does with later lines: the line \<open>Y\<close> after a later
  \<open>#else\<close> is kept when the block stands alone and lost when it follows such a block.
\<close>

theorem guard_marker_left_on_stack:
  "blocks_loop (split_nl ''#if os(iOS)\<newline>A\<newline>#else\<newline>C\<newline>#endif'') blocks_init
     = \<lparr>result = [''A''], stack = [''ios''], skip_until_endif = 0\<rparr> \<and>
   blocks_loop (split_nl ''#if os(iOS)\<newline>A\<newline>#elseif os(macOS)\<newline>C\<newline>#endif'')
       blocks_init
     = \<lparr>result = [''A''], stack = [''ios''], skip_until_endif = 0\<rparr> \<and>
   remove_macos_blocks ''#if DEBUG\<newline>X\<newline>#else\<newline>Y\<newline>#endif''
     = ''#if DEBUG\<newline>X\<newline>Y'' \<and>
   remove_macos_blocks
       ''#if os(iOS)\<newline>A\<newline>#elseif os(macOS)\<newline>C\<newline>#endif\<newline>#if DEBUG\<newline>X\<newline>#else\<newline>Y\<newline>#endif''
     = ''A\<newline>#if DEBUG\<newline>X''"
  by (simp add: blocks_eval)

subsection \<open>Directive lines in the output\<close>

text \<open>
  Claim C3 says that no line of the output matches a directive pattern. The line
  \<open>#if os(watchOS)\<close> matches the pattern \<open>^\s*#if\<close> of the loop and is in the output.
\<close>

theorem directive_in_output_counterexample:
  "re_if ''#if os(watchOS)'' \<and>
   ''#if os(watchOS)'' \<in> set (kept_lines [''#if os(watchOS)'', ''D'', ''#endif'', ''B''])"
  by (simp add: blocks_eval)

text \<open>
  Claim C3, as the filter behaves: no kept line matches one of the five patterns that the
  loop tests before it keeps a line, namely \<open>#if os(macOS)\<close>, \<open>#if os(iOS)\<close>,
  \<open>#elseif os(macOS)\<close>, \<open>#else\<close> alone on its line, and \<open>#endif\<close>.
\<close>

theorem no_tested_directive_kept:
  "k \<in> set (kept_lines lines) \<Longrightarrow>
   \<not> re_if_macos k \<and> \<not> re_if_ios k \<and> \<not> re_elseif_macos k \<and> \<not> re_else k \<and> \<not> re_endif k"
  using blocks_loop_result [of lines blocks_init]
  by (auto simp: kept_lines_def blocks_init_def recognised_def)

theorem no_tested_directive_kept_witness:
  "''D'' \<in> set (kept_lines [''#if os(iOS)'', ''D'', ''#endif'']) \<and>
   \<not> re_if_macos ''D'' \<and> \<not> re_if_ios ''D'' \<and> \<not> re_elseif_macos ''D'' \<and> \<not> re_else ''D'' \<and>
   \<not> re_endif ''D''"
proof -
  have h: "''D'' \<in> set (kept_lines [''#if os(iOS)'', ''D'', ''#endif''])"
    by (simp add: blocks_eval)
  show ?thesis using h no_tested_directive_kept [OF h] by simp
qed

subsection \<open>The guard \<open>#if !os(macOS)\<close>\<close>

text \<open>
  Claim C4 says that the line \<open>#if !os(macOS)\<close> is not emitted and the body of its block
  is. On the lines \<open>#if !os(macOS)\<close>, \<open>X\<close>, \<open>#endif\<close> the refined filter has no test for
  this guard: it keeps the directive line and the body and drops the \<open>#endif\<close>. The first
  version, whose documentation lists the guard, drops the directive line and keeps the
  body.
\<close>

theorem not_macos_guard_kept_by_refined_filter:
  "remove_macos_blocks ''#if !os(macOS)\<newline>X\<newline>#endif'' = ''#if !os(macOS)\<newline>X'' \<and>
   remove_macos_conditionals ''#if !os(macOS)\<newline>X\<newline>#endif'' = ''X\<newline>#endif''"
  by (simp add: blocks_eval conditionals_eval)

subsection \<open>Filtering twice\<close>




subsection \<open>What the post-pass deletes\<close>

text \<open>
  Claim C6 says that the post-pass deletes every whole line \<open>import AppKit\<close>, wherever it
  is, and nothing else; the comment above it in \<open>process_file\<close> reads
  \<open>Remove any orphaned imports\<close>. The pattern ends with a line feed and is not tied to
  the start of a line. So a line \<open>import AppKit\<close> that ends the filtered content, with no
  line feed after it, is left in the output. An empty line after the import is deleted
  with it. And an \<open>import AppKit\<close> at the end of a longer line is cut out of that line,
  which joins what stands before it with the next line.
\<close>

theorem orphaned_import_left_by_post_pass:
  "filter_and_post ''import AppKit\<newline>#if os(macOS)\<newline>X\<newline>#endif'' = ''import AppKit'' \<and>
   filter_and_post ''#if os(macOS)\<newline>X\<newline>#endif\<newline>import AppKit\<newline>\<newline>let a = 1''
     = ''let a = 1'' \<and>
   filter_and_post ''// import AppKit\<newline>import UIKit\<newline>#if os(macOS)\<newline>X\<newline>#endif''
     = ''// import UIKit''"
  by (simp add: post_eval blocks_eval)

subsection \<open>A block of the target platform\<close>

text \<open>
  Claim C7. The lines \<open>#if os(macOS)\<close>, \<open>A\<close>, \<open>#endif\<close>, \<open>B\<close> give exactly \<open>B\<close>. And for a
  block that opens with a line \<open>#if os(macOS)\<close>, holds a region of nested
  \<open>#if\<close>/\<open>#endif\<close> pairs and closes with a line \<open>#endif\<close>: after the opening line and any
  first part \<open>p\<close> of the region the counter is above its value before the block and
  nothing has been added to \<open>result\<close>, and after the closing line the state is the one
  before the block, so the lines after it are treated as if the block were absent.
\<close>

theorem macos_block_removed:
  assumes "re_if_macos m" and "balanced_from 0 (p @ q)" and "re_endif e"
    and "0 \<le> skip_until_endif s"
  shows "remove_macos_blocks ''#if os(macOS)\<newline>A\<newline>#endif\<newline>B'' = ''B'' \<and>
    skip_until_endif s < skip_until_endif (blocks_loop (m # p) s) \<and>
    result (blocks_loop (m # p) s) = result s \<and>
    blocks_loop (m # p @ q @ [e]) s = s \<and>
    blocks_loop (m # p @ q @ [e] @ rest) s = blocks_loop rest s"
proof -
  have 1: "remove_macos_blocks ''#if os(macOS)\<newline>A\<newline>#endif\<newline>B'' = ''B''"
    by (simp add: blocks_eval)
  from macos_block_inside [OF assms(1,2,4)] obtain d where
    "blocks_loop (m # p) s = s\<lparr>skip_until_endif := skip_until_endif s + 1 + int d\<rparr>"
    by blast
  then have 2: "skip_until_endif s < skip_until_endif (blocks_loop (m # p) s)"
    and 3: "result (blocks_loop (m # p) s) = result s"
    by simp_all
  have 4: "blocks_loop (m # p @ q @ [e]) s = s"
    using macos_block_whole [OF assms(1,2,3,4)] by simp
  have "blocks_loop ((m # p @ q @ [e]) @ rest) s = blocks_loop rest s"
    unfolding blocks_loop_append 4 ..
  then have 5: "blocks_loop (m # p @ q @ [e] @ rest) s = blocks_loop rest s" by simp
  from 1 2 3 4 5 show ?thesis by blast
qed

theorem macos_block_removed_witness:
  "re_if_macos ''#if os(macOS)'' \<and>
   balanced_from 0 ([''A'', ''#if DEBUG'', ''X''] @ [''#endif'', ''Y'']) \<and>
   re_endif ''#endif'' \<and> 0 \<le> skip_until_endif blocks_init \<and>
   skip_until_endif blocks_init
     < skip_until_endif (blocks_loop (''#if os(macOS)'' # [''A'', ''#if DEBUG'', ''X'']) blocks_init) \<and>
   blocks_loop (''#if os(macOS)'' # [''A'', ''#if DEBUG'', ''X''] @ [''#endif'', ''Y''] @ [''#endif''])
     blocks_init = blocks_init \<and>
   blocks_loop (''#if os(macOS)'' # [''A'', ''#if DEBUG'', ''X''] @ [''#endif'', ''Y''] @ [''#endif'']
     @ [''B'']) blocks_init = blocks_loop [''B''] blocks_init"
proof -
  have h1: "re_if_macos ''#if os(macOS)''" by (simp add: re_defs)
  have h2: "balanced_from 0 ([''A'', ''#if DEBUG'', ''X''] @ [''#endif'', ''Y''])"
    by (simp add: re_defs)
  have h3: "re_endif ''#endif''" by (simp add: re_defs)
  have h4: "0 \<le> skip_until_endif blocks_init" by (simp add: blocks_init_def)
  from macos_block_removed [OF h1 h2 h3 h4, of "[''B'']"] h1 h2 h3 h4 show ?thesis by blast
qed

subsection \<open>Order of the kept lines\<close>

text \<open>
  Claim C8. The lines in \<open>result\<close> when the loop ends are a subsequence of the lines of
  the input: each is a line of the input, unchanged, none is taken twice, and they stand
  in the order of the input. The returned text is these lines joined.
\<close>

theorem kept_lines_subsequence:
  "subseq (kept_lines (split_nl content)) (split_nl content) \<and>
   remove_macos_blocks content = join_nl (kept_lines (split_nl content))"
  by (simp add: kept_lines_subseq remove_macos_blocks_def)

subsection \<open>Closing lines outside any block\<close>

text \<open>
  Claim C9. A line \<open>#else\<close>, \<open>#elseif os(macOS)\<close> or \<open>#endif\<close> that the loop visits with
  the counter at 0 and the stack empty leaves the whole state as it is: the line is not
  added to \<open>result\<close>, and the loop goes on with the next line. No branch of the loop
  raises.
\<close>

theorem stray_directive_dropped:
  assumes "skip_until_endif s = 0" and "stack s = []"
    and "re_else line \<or> re_elseif_macos line \<or> re_endif line"
  shows "blocks_step s line = s \<and> blocks_loop (line # rest) s = blocks_loop rest s"
proof -
  have "\<not> re_if line" using assms(3) re_if_not_branch by blast
  then have "\<not> re_if_macos line" "\<not> re_if_ios line"
    using re_if_macos_is_if re_if_ios_is_if by blast+
  then have "blocks_step s line = s"
    using assms by (auto simp: blocks_step_def top_is_ios_def)
  then show ?thesis by simp
qed

theorem stray_directive_dropped_witness:
  "skip_until_endif blocks_init = 0 \<and> stack blocks_init = [] \<and>
   (re_else ''#endif'' \<or> re_elseif_macos ''#endif'' \<or> re_endif ''#endif'') \<and>
   blocks_step blocks_init ''#endif'' = blocks_init \<and>
   blocks_loop (''#endif'' # [''B'']) blocks_init = blocks_loop [''B''] blocks_init"
proof -
  have h1: "skip_until_endif blocks_init = 0" by (simp add: blocks_init_def)
  have h2: "stack blocks_init = []" by (simp add: blocks_init_def)
  have h3: "re_else ''#endif'' \<or> re_elseif_macos ''#endif'' \<or> re_endif ''#endif''"
    by (simp add: re_defs)
  from stray_directive_dropped [OF h1 h2 h3, of "[''B'']"] h1 h2 h3 show ?thesis by blast
qed

subsection \<open>The two versions\<close>

text \<open>
  Claim C10. The first version and the refined filter are different functions: on the
  single line \<open>#if !os(macOS)\<close> the first returns the empty text and the refined one the
  line, and on the single line \<open>#endif\<close> the first returns the line and the refined one
  the empty text.
\<close>

theorem versions_differ:
  "remove_macos_conditionals \<noteq> remove_macos_blocks \<and>
   remove_macos_conditionals ''#if !os(macOS)'' = [] \<and>
   remove_macos_blocks ''#if !os(macOS)'' = ''#if !os(macOS)'' \<and>
   remove_macos_conditionals ''#endif'' = ''#endif'' \<and>
   remove_macos_blocks ''#endif'' = []"
proof -
  have 1: "remove_macos_conditionals ''#if !os(macOS)'' = []"
    by (simp add: conditionals_eval)
  have 2: "remove_macos_blocks ''#if !os(macOS)'' = ''#if !os(macOS)''"
    by (simp add: blocks_eval)
  have 3: "remove_macos_conditionals ''#endif'' = ''#endif''"
    by (simp add: conditionals_eval)
  have 4: "remove_macos_blocks ''#endif'' = []"
    by (simp add: blocks_eval)
  have "remove_macos_conditionals ''#endif'' \<noteq> remove_macos_blocks ''#endif''"
    unfolding 3 4 by simp
  then have "remove_macos_conditionals \<noteq> remove_macos_blocks" by auto
  with 1 2 3 4 show ?thesis by blast
qed

end
